theory Spec2Isabelle
  imports Complex_Main "HOL-Library.Sublist"
begin

section \<open>Data model of \<^verbatim>\<open>main.go\<close>\<close>

text \<open>
  A Go \<^verbatim>\<open>string\<close> is a sequence of bytes, so it is a \<^typ>\<open>char list\<close>
  (\<^typ>\<open>char\<close> is one byte) and \<^verbatim>\<open>len(s)\<close> is \<^const>\<open>length\<close>.
  A Go \<^verbatim>\<open>int\<close> is an \<^typ>\<open>int\<close>: document ids are only stored, compared
  and used as slice indices, never computed with.
  A \<^verbatim>\<open>float64\<close> is a \<^typ>\<open>real\<close> and \<^verbatim>\<open>math.Log\<close> is \<^const>\<open>ln\<close>:
  the arithmetic of the scorers is followed operation by operation; rounding is not
  represented, nor are the infinities and NaN that Go gives for a division by zero and
  for the logarithm of a number that is not positive.
\<close>

record Document =
  ID :: int
  Content :: string
  Score :: real

type_synonym InvertedIndex = "string \<rightharpoonup> int list"

record SearchEngine =
  index :: InvertedIndex
  documents :: "Document list"
  avgDocLength :: real
  k1 :: real
  k2 :: real

text \<open>An index expression \<^verbatim>\<open>s[i]\<close> outside \<^verbatim>\<open>0 <= i < len(s)\<close> panics.\<close>

datatype error = IndexOutOfRange

section \<open>The functions of package \<^verbatim>\<open>strings\<close> the program calls\<close>

text \<open>
  \<^verbatim>\<open>strings.ToLower\<close>, on bytes: the letters \<^verbatim>\<open>A\<close> to \<^verbatim>\<open>Z\<close> are mapped to
  \<^verbatim>\<open>a\<close> to \<^verbatim>\<open>z\<close>, every other byte is kept (Go also maps the upper-case letters
  beyond ASCII; the model is exact on text whose upper-case letters are ASCII).
\<close>

definition lower_byte :: "char \<Rightarrow> char" where
  "lower_byte c =
     (let n = (of_char c :: nat) in if 65 \<le> n \<and> n \<le> 90 then char_of (n + 32) else c)"

definition ToLower :: "string \<Rightarrow> string" where
  "ToLower s = map lower_byte s"

text \<open>
  \<^verbatim>\<open>strings.Fields\<close> splits around runs of white space; the ASCII white space
  is tab, line feed, vertical tab, form feed, carriage return and space (Go also splits
  at the white space beyond ASCII; the model is exact on text whose white space is
  ASCII). The scan keeps the field it is in (\<open>cur\<close>) and closes it at a white-space
  byte or at the end.
\<close>

definition isSpace :: "char \<Rightarrow> bool" where
  "isSpace c = ((of_char c :: nat) = 9 \<or> (of_char c :: nat) = 10 \<or> (of_char c :: nat) = 11
     \<or> (of_char c :: nat) = 12 \<or> (of_char c :: nat) = 13 \<or> (of_char c :: nat) = 32)"

fun fields_from :: "string \<Rightarrow> string \<Rightarrow> string list" where
  "fields_from cur [] = (if cur = [] then [] else [cur])"
| "fields_from cur (c # cs) =
     (if isSpace c then (if cur = [] then fields_from [] cs else cur # fields_from [] cs)
      else fields_from (cur @ [c]) cs)"

definition Fields :: "string \<Rightarrow> string list" where
  "Fields s = fields_from [] s"

text \<open>
  \<^verbatim>\<open>strings.Index(s, substr)\<close>: the position of the first instance of
  \<open>substr\<close> in \<open>s\<close>, \<^verbatim>\<open>-1\<close> (here \<open>None\<close>) when there is none.
\<close>

fun Index :: "string \<Rightarrow> string \<Rightarrow> nat option" where
  "Index [] substr = (if substr = [] then Some 0 else None)"
| "Index (c # cs) substr =
     (if prefix substr (c # cs) then Some 0 else map_option Suc (Index cs substr))"

lemma Index_bound: "Index s substr = Some i \<Longrightarrow> i + length substr \<le> length s"
  by (induction s arbitrary: i) (auto split: if_splits dest: prefix_length_le)

text \<open>
  \<^verbatim>\<open>strings.Count(s, substr)\<close>. For an empty \<open>substr\<close> Go returns one more than
  the number of code points of \<open>s\<close> (in UTF-8: the bytes that are not continuation
  bytes \<^verbatim>\<open>10xxxxxx\<close>). Otherwise it runs
  \<^verbatim>\<open>for { i := Index(s, substr); if i == -1 { return n }; n++; s = s[i+len(substr):] }\<close>:
  it counts instances from the left, and continues the search behind each instance found.
\<close>

function count_loop :: "string \<Rightarrow> string \<Rightarrow> nat" where
  "count_loop s substr =
     (if substr = [] then 0
      else (case Index s substr of
              None \<Rightarrow> 0
            | Some i \<Rightarrow> 1 + count_loop (drop (i + length substr) s) substr))"
  by pat_completeness auto
termination
proof (relation "measure (\<lambda>(s, substr). length s)")
  show "wf (measure (\<lambda>(s, substr). length s))" by simp
next
  fix s substr :: string and i
  assume "substr \<noteq> []" "Index s substr = Some i"
  then show "((drop (i + length substr) s, substr), (s, substr))
               \<in> measure (\<lambda>(s, substr). length s)"
    using Index_bound[of s substr i] by (cases substr) auto
qed

definition is_continuation :: "char \<Rightarrow> bool" where
  "is_continuation c = (128 \<le> (of_char c :: nat) \<and> (of_char c :: nat) < 192)"

definition Count :: "string \<Rightarrow> string \<Rightarrow> nat" where
  "Count s substr =
     (if substr = [] then length (filter (\<lambda>c. \<not> is_continuation c) s) + 1
      else count_loop s substr)"

section \<open>\<^verbatim>\<open>BuildInvertedIndex\<close>\<close>

text \<open>
  Reading a map at a missing key gives the zero value of the element type, here the
  nil slice.
\<close>

definition lookup_postings :: "InvertedIndex \<Rightarrow> string \<Rightarrow> int list" where
  "lookup_postings idx token = (case idx token of None \<Rightarrow> [] | Some l \<Rightarrow> l)"

text \<open>The body of the inner loop (lines 34 to 37), for one token of one document.\<close>

definition add_posting :: "int \<Rightarrow> InvertedIndex \<Rightarrow> string \<Rightarrow> InvertedIndex" where
  "add_posting docID idx token =
     (let idx1 = (if idx token = None then idx(token \<mapsto> []) else idx)
      in idx1(token \<mapsto> lookup_postings idx1 token @ [docID]))"

text \<open>The body of the outer loop (lines 31 to 38), for one document.\<close>

definition index_document :: "InvertedIndex \<Rightarrow> Document \<Rightarrow> InvertedIndex" where
  "index_document idx doc =
     (let tokens = Fields (ToLower (Content doc))
      in foldl (add_posting (ID doc)) idx tokens)"

definition BuildInvertedIndex :: "Document list \<Rightarrow> InvertedIndex" where
  "BuildInvertedIndex docs = foldl index_document Map.empty docs"

section \<open>The scorers\<close>

text \<open>
  \<^verbatim>\<open>se.documents[docID]\<close>: the element at position \<open>docID\<close> of the slice, a panic
  when \<open>docID\<close> is negative or not below the length.
\<close>

definition get_document :: "Document list \<Rightarrow> int \<Rightarrow> error + Document" where
  "get_document docs docID =
     (if 0 \<le> docID \<and> docID < int (length docs) then Inr (docs ! nat docID)
      else Inl IndexOutOfRange)"

type_synonym ScoreMap = "int \<rightharpoonup> real"

text \<open>\<^verbatim>\<open>scores[docID] += x\<close>: a missing key reads as \<open>0\<close>.\<close>

definition score_at :: "ScoreMap \<Rightarrow> int \<Rightarrow> real" where
  "score_at scores docID = (case scores docID of None \<Rightarrow> 0 | Some v \<Rightarrow> v)"

definition add_score :: "ScoreMap \<Rightarrow> int \<Rightarrow> real \<Rightarrow> ScoreMap" where
  "add_score scores docID x = scores(docID \<mapsto> score_at scores docID + x)"

text \<open>\<^verbatim>\<open>CalculateTFIDFScore\<close>: the inner loop (lines 50 to 53), then the outer one.\<close>

fun tfidf_docs :: "SearchEngine \<Rightarrow> string \<Rightarrow> real \<Rightarrow> ScoreMap \<Rightarrow> int list \<Rightarrow> error + ScoreMap" where
  "tfidf_docs se token idf scores [] = Inr scores"
| "tfidf_docs se token idf scores (docID # docSet) =
     (case get_document (documents se) docID of
        Inl e \<Rightarrow> Inl e
      | Inr doc \<Rightarrow>
          (let tf = real (Count (ToLower (Content doc)) token)
           in tfidf_docs se token idf (add_score scores docID (tf * idf)) docSet))"

fun tfidf_tokens :: "SearchEngine \<Rightarrow> ScoreMap \<Rightarrow> string list \<Rightarrow> error + ScoreMap" where
  "tfidf_tokens se scores [] = Inr scores"
| "tfidf_tokens se scores (token # tokens) =
     (case index se token of
        None \<Rightarrow> tfidf_tokens se scores tokens
      | Some docSet \<Rightarrow>
          (let idf = ln (real (length (documents se)) / real (length docSet))
           in case tfidf_docs se token idf scores docSet of
                Inl e \<Rightarrow> Inl e
              | Inr scores' \<Rightarrow> tfidf_tokens se scores' tokens))"

definition CalculateTFIDFScore :: "SearchEngine \<Rightarrow> string list \<Rightarrow> error + ScoreMap" where
  "CalculateTFIDFScore se tokens = tfidf_tokens se Map.empty tokens"

text \<open>\<^verbatim>\<open>CalculateBM25Score\<close>: lines 67 to 71 for one document, then the two loops.\<close>

definition bm25_term :: "SearchEngine \<Rightarrow> string \<Rightarrow> real \<Rightarrow> Document \<Rightarrow> real" where
  "bm25_term se token idf doc =
     (let tf = real (Count (ToLower (Content doc)) token);
          dl = real (length (Fields (ToLower (Content doc))));
          numerator = (k1 se + 1) * tf * (k1 se + 1)
                        / (tf + k1 se * (1 - k2 se + k2 se * dl / avgDocLength se));
          denominator = tf + k1 se * (1 - k2 se + k2 se * dl / avgDocLength se)
      in idf * numerator / denominator)"

fun bm25_docs :: "SearchEngine \<Rightarrow> string \<Rightarrow> real \<Rightarrow> ScoreMap \<Rightarrow> int list \<Rightarrow> error + ScoreMap" where
  "bm25_docs se token idf scores [] = Inr scores"
| "bm25_docs se token idf scores (docID # docSet) =
     (case get_document (documents se) docID of
        Inl e \<Rightarrow> Inl e
      | Inr doc \<Rightarrow> bm25_docs se token idf (add_score scores docID (bm25_term se token idf doc)) docSet)"

fun bm25_tokens :: "SearchEngine \<Rightarrow> ScoreMap \<Rightarrow> string list \<Rightarrow> error + ScoreMap" where
  "bm25_tokens se scores [] = Inr scores"
| "bm25_tokens se scores (token # tokens) =
     (case index se token of
        None \<Rightarrow> bm25_tokens se scores tokens
      | Some docSet \<Rightarrow>
          (let idf = ln (real_of_int (int (length (documents se)) - int (length docSet)) + 0.5)
                       / (real (length docSet) + 0.5)
           in case bm25_docs se token idf scores docSet of
                Inl e \<Rightarrow> Inl e
              | Inr scores' \<Rightarrow> bm25_tokens se scores' tokens))"

definition CalculateBM25Score :: "SearchEngine \<Rightarrow> string list \<Rightarrow> error + ScoreMap" where
  "CalculateBM25Score se tokens = bm25_tokens se Map.empty tokens"

section \<open>\<^verbatim>\<open>Search\<close>\<close>

text \<open>
  \<^verbatim>\<open>for docID, score := range scores\<close> visits every entry of the map once, in an
  order Go leaves open. The order is a parameter of the model: \<open>visit\<close> lists the
  entries as the loop meets them, and \<open>range_order scores visit\<close> says that it is such a
  listing of \<open>scores\<close>.
\<close>

definition range_order :: "ScoreMap \<Rightarrow> (int \<times> real) list \<Rightarrow> bool" where
  "range_order scores visit = (distinct (map fst visit) \<and> map_of visit = scores)"

fun collect_results :: "SearchEngine \<Rightarrow> Document list \<Rightarrow> (int \<times> real) list \<Rightarrow> error + Document list" where
  "collect_results se results [] = Inr results"
| "collect_results se results ((docID, score) # visit) =
     (case get_document (documents se) docID of
        Inl e \<Rightarrow> Inl e
      | Inr doc \<Rightarrow>
          collect_results se (results @ [\<lparr>ID = docID, Content = Content doc, Score = score\<rparr>]) visit)"

text \<open>
  \<^verbatim>\<open>sort.Slice(results, less)\<close> reorders the slice so that \<^verbatim>\<open>less\<close> (here
  \<open>lessf\<close>) never holds from a later element to an earlier one; it does not promise an
  order among elements neither of which is less than the other. The model is the
  insertion sort that keeps such elements in their input order; as the input order is
  any listing of the map, every order of equal scores arises.
\<close>

fun insert_by :: "('a \<Rightarrow> 'a \<Rightarrow> bool) \<Rightarrow> 'a \<Rightarrow> 'a list \<Rightarrow> 'a list" where
  "insert_by lessf x [] = [x]"
| "insert_by lessf x (y # ys) = (if lessf y x then y # insert_by lessf x ys else x # y # ys)"

definition sort_Slice :: "('a \<Rightarrow> 'a \<Rightarrow> bool) \<Rightarrow> 'a list \<Rightarrow> 'a list" where
  "sort_Slice lessf xs = foldr (insert_by lessf) xs []"

definition Search :: "SearchEngine \<Rightarrow> (int \<times> real) list \<Rightarrow> string \<Rightarrow> error + Document list" where
  "Search se visit query =
     (let tokens = Fields (ToLower query) in
      case CalculateTFIDFScore se tokens of
        Inl e \<Rightarrow> Inl e
      | Inr scores \<Rightarrow>
          (case collect_results se [] visit of
             Inl e \<Rightarrow> Inl e
           | Inr results \<Rightarrow>
               (let sorted_results = sort_Slice (\<lambda>a b. Score a > Score b) results
                in Inr (if length sorted_results > 10 then take 10 sorted_results
                        else sorted_results))))"

section \<open>The engine \<^verbatim>\<open>main\<close> constructs\<close>

text \<open>
  Lines 133 to 138: the index is built from the documents, \<open>avgDocLength\<close> is the sum of
  \<^verbatim>\<open>len(doc.Content)\<close> over the documents divided by their number, and \<open>k1\<close>, \<open>k2\<close>
  are the constants 1.2 and 0.75.
\<close>

definition main_engine :: "Document list \<Rightarrow> SearchEngine" where
  "main_engine docs =
     (let idx = BuildInvertedIndex docs;
          docLength = foldl (\<lambda>docLength doc. docLength + real (length (Content doc))) 0 docs
      in \<lparr>index = idx, documents = docs, avgDocLength = docLength / real (length docs),
          k1 = 1.2, k2 = 0.75\<rparr>)"

section \<open>Notions used in the statements\<close>

subsection \<open>The index\<close>

text \<open>The tokens of a document, as line 31 computes them.\<close>

definition doc_tokens :: "Document \<Rightarrow> string list" where
  "doc_tokens doc = Fields (ToLower (Content doc))"

text \<open>
  What the posting list of a term holds after the build: for every document, in corpus
  order, its id once per occurrence of the term among the document's tokens.
\<close>

definition postings_of :: "Document list \<Rightarrow> string \<Rightarrow> int list" where
  "postings_of docs t = concat (map (\<lambda>doc. replicate (count_list (doc_tokens doc) t) (ID doc)) docs)"

text \<open>
  Every document stands in the slice at the position equal to its id, as in the corpus
  of \<^verbatim>\<open>main\<close>.
\<close>

definition dense_ids :: "Document list \<Rightarrow> bool" where
  "dense_ids docs = (\<forall>i < length docs. ID (docs ! i) = int i)"

subsection \<open>The scorers\<close>

text \<open>
  The id is a position of the engine's slice of documents.
\<close>

definition in_bounds :: "SearchEngine \<Rightarrow> int \<Rightarrow> bool" where
  "in_bounds se docID = (0 \<le> docID \<and> docID < int (length (documents se)))"

text \<open>
  The term frequency as line 51 and line 67 compute it, for the document at position
  \<open>docID\<close>, and the factor \<open>idf\<close> of line 49 and of line 65 for a posting list.
\<close>

definition term_frequency :: "SearchEngine \<Rightarrow> int \<Rightarrow> string \<Rightarrow> nat" where
  "term_frequency se docID token = Count (ToLower (Content (documents se ! nat docID))) token"

definition tfidf_idf :: "SearchEngine \<Rightarrow> int list \<Rightarrow> real" where
  "tfidf_idf se docSet = ln (real (length (documents se)) / real (length docSet))"

definition bm25_idf :: "SearchEngine \<Rightarrow> int list \<Rightarrow> real" where
  "bm25_idf se docSet =
     ln (real_of_int (int (length (documents se)) - int (length docSet)) + 0.5)
       / (real (length docSet) + 0.5)"

text \<open>The documents the postings of the tokens name.\<close>

definition candidates :: "SearchEngine \<Rightarrow> string list \<Rightarrow> int set" where
  "candidates se tokens = {d. \<exists>t \<in> set tokens. d \<in> set (lookup_postings (index se) t)}"

text \<open>
  What one query token adds to the score of document \<open>d\<close>, in either scorer: the loop
  body runs once for every entry of the token's posting list that is \<open>d\<close>.
\<close>

definition tfidf_contribution :: "SearchEngine \<Rightarrow> int \<Rightarrow> string \<Rightarrow> real" where
  "tfidf_contribution se d t =
     (case index se t of
        None \<Rightarrow> 0
      | Some ps \<Rightarrow> real (count_list ps d) * (real (term_frequency se d t) * tfidf_idf se ps))"


text \<open>
  The result line 87 appends for one entry of the score map.
\<close>

definition result_of :: "SearchEngine \<Rightarrow> int \<times> real \<Rightarrow> Document" where
  "result_of se entry =
     \<lparr>ID = fst entry, Content = Content (documents se ! nat (fst entry)), Score = snd entry\<rparr>"

subsection \<open>Occurrences of a term in a text\<close>




subsection \<open>The quantities of the claims, in their words\<close>

text \<open>
  The score of claim C1, written from the claim's words: the sum, over the query tokens
  \<open>t\<close> that are keys of the index with \<open>d\<close> in their posting list, of the term frequency
  times the logarithm of the number of documents over the number of distinct documents in
  the posting list.
\<close>

definition tfidf_claimed_score :: "SearchEngine \<Rightarrow> string list \<Rightarrow> int \<Rightarrow> real" where
  "tfidf_claimed_score se tokens d =
     (\<Sum>t\<leftarrow>tokens. case index se t of
        None \<Rightarrow> 0
      | Some ps \<Rightarrow>
          if d \<in> set ps
          then real (term_frequency se d t)
                 * ln (real (length (documents se)) / real (card (set ps)))
          else 0)"

text \<open>
  The mean of claim C3, written from the claim's words: the arithmetic mean of the
  documents' token counts.
\<close>

definition mean_token_count :: "Document list \<Rightarrow> real" where
  "mean_token_count docs
     = (\<Sum>doc\<leftarrow>docs. real (length (Fields (ToLower (Content doc))))) / real (length docs)"


subsection \<open>Corpora used as concrete inputs\<close>

text \<open>The corpus of the specification's scenario, and document 0 of the corpus in \<^verbatim>\<open>main\<close>.\<close>

definition scenario_corpus :: "Document list" where
  "scenario_corpus = [\<lparr>ID = 0, Content = ''the quick brown fox'', Score = 0\<rparr>,
                      \<lparr>ID = 1, Content = ''the lazy dog'', Score = 0\<rparr>]"

definition blah_corpus :: "Document list" where
  "blah_corpus = [\<lparr>ID = 0, Content = ''Lorem ipsum blah blah fox'', Score = 0\<rparr>]"


text \<open>Eleven documents that all hold the token \<^verbatim>\<open>a\<close>, one more than the limit of 10.\<close>

definition eleven_corpus :: "Document list" where
  "eleven_corpus = map (\<lambda>i. \<lparr>ID = int i, Content = ''a'', Score = 0\<rparr>) [0..<11]"

section \<open>Lemmas\<close>

subsection \<open>The index after the build\<close>

lemma add_posting_apply:
  "add_posting d idx tok t = (if t = tok then Some (lookup_postings idx tok @ [d]) else idx t)"
  by (simp add: add_posting_def lookup_postings_def Let_def)

lemma foldl_add_posting_lookup:
  "lookup_postings (foldl (add_posting d) idx toks) t
     = lookup_postings idx t @ replicate (count_list toks t) d"
proof (induction toks arbitrary: idx)
  case Nil
  show ?case by simp
next
  case (Cons tok toks)
  have "lookup_postings (add_posting d idx tok) t
          = lookup_postings idx t @ (if tok = t then [d] else [])"
    by (simp add: lookup_postings_def add_posting_apply)
  then show ?case
    using Cons.IH[of "add_posting d idx tok"] by (simp add: replicate_app_Cons_same)
qed

lemma foldl_add_posting_None:
  "foldl (add_posting d) idx toks t = None \<longleftrightarrow> idx t = None \<and> t \<notin> set toks"
  by (induction toks arbitrary: idx) (auto simp: add_posting_apply)

lemma foldl_index_document_lookup:
  "lookup_postings (foldl index_document idx docs) t = lookup_postings idx t @ postings_of docs t"
proof (induction docs arbitrary: idx)
  case Nil
  show ?case by (simp add: postings_of_def)
next
  case (Cons doc docs)
  show ?case
    using Cons.IH[of "index_document idx doc"]
    by (simp add: postings_of_def index_document_def doc_tokens_def foldl_add_posting_lookup)
qed

lemma foldl_index_document_None:
  "foldl index_document idx docs t = None
     \<longleftrightarrow> idx t = None \<and> (\<forall>doc \<in> set docs. t \<notin> set (doc_tokens doc))"
  by (induction docs arbitrary: idx)
     (auto simp: index_document_def doc_tokens_def foldl_add_posting_None)

lemma BuildInvertedIndex_lookup:
  "lookup_postings (BuildInvertedIndex docs) t = postings_of docs t"
  using foldl_index_document_lookup[of Map.empty docs t]
  by (simp add: BuildInvertedIndex_def lookup_postings_def)

lemma BuildInvertedIndex_None:
  "BuildInvertedIndex docs t = None \<longleftrightarrow> (\<forall>doc \<in> set docs. t \<notin> set (doc_tokens doc))"
  by (simp add: BuildInvertedIndex_def foldl_index_document_None)

lemma BuildInvertedIndex_Some:
  "BuildInvertedIndex docs t = Some ps \<Longrightarrow> ps = postings_of docs t"
  using BuildInvertedIndex_lookup[of docs t] by (simp add: lookup_postings_def)

lemma set_postings_of:
  "set (postings_of docs t) = {ID doc |doc. doc \<in> set docs \<and> t \<in> set (doc_tokens doc)}"
  by (auto simp: postings_of_def count_list_0_iff)

lemma dense_ids_postings:
  assumes "dense_ids docs" and "d \<in> set (postings_of docs t)"
  shows "0 \<le> d \<and> d < int (length docs)"
proof -
  from assms(2) obtain doc where "doc \<in> set docs" and d: "d = ID doc"
    by (auto simp: set_postings_of)
  then obtain i where "i < length docs" and "docs ! i = doc"
    by (auto simp: in_set_conv_nth)
  with assms(1) d show ?thesis by (auto simp: dense_ids_def)
qed

subsection \<open>What the TF-IDF scorer computes\<close>

lemma get_document_in_bounds:
  "in_bounds se d \<Longrightarrow> get_document (documents se) d = Inr (documents se ! nat d)"
  by (simp add: get_document_def in_bounds_def)

lemma get_document_out_of_bounds:
  "\<not> in_bounds se d \<Longrightarrow> get_document (documents se) d = Inl IndexOutOfRange"
  by (auto simp add: get_document_def in_bounds_def)

lemma score_at_add_score:
  "score_at (add_score scores d x) d' = score_at scores d' + (if d' = d then x else 0)"
  by (simp add: score_at_def add_score_def)

lemma dom_add_score: "dom (add_score scores d x) = insert d (dom scores)"
  by (simp add: add_score_def)

lemma tfidf_docs_returns:
  "(\<exists>scores'. tfidf_docs se t idf scores ds = Inr scores') \<longleftrightarrow> (\<forall>d \<in> set ds. in_bounds se d)"
proof (induction ds arbitrary: scores)
  case Nil
  show ?case by simp
next
  case (Cons d ds)
  show ?case
  proof (cases "in_bounds se d")
    case True
    then show ?thesis using Cons.IH by (simp add: get_document_in_bounds)
  next
    case False
    then show ?thesis by (simp add: get_document_out_of_bounds)
  qed
qed

lemma tfidf_docs_score:
  "tfidf_docs se t idf scores ds = Inr scores' \<Longrightarrow>
     score_at scores' d = score_at scores d + real (count_list ds d) * (real (term_frequency se d t) * idf)"
proof (induction ds arbitrary: scores)
  case Nil
  then show ?case by simp
next
  case (Cons x ds)
  show ?case
  proof (cases "in_bounds se x")
    case True
    with Cons.prems have
      "tfidf_docs se t idf (add_score scores x (real (term_frequency se x t) * idf)) ds = Inr scores'"
      by (simp add: get_document_in_bounds term_frequency_def)
    from Cons.IH[OF this] show ?thesis
      by (simp add: score_at_add_score algebra_simps)
  next
    case False
    with Cons.prems show ?thesis by (simp add: get_document_out_of_bounds)
  qed
qed

lemma tfidf_docs_dom:
  "tfidf_docs se t idf scores ds = Inr scores' \<Longrightarrow> dom scores' = dom scores \<union> set ds"
proof (induction ds arbitrary: scores)
  case Nil
  then show ?case by simp
next
  case (Cons x ds)
  show ?case
  proof (cases "in_bounds se x")
    case True
    with Cons.prems have
      "tfidf_docs se t idf (add_score scores x (real (term_frequency se x t) * idf)) ds = Inr scores'"
      by (simp add: get_document_in_bounds term_frequency_def)
    from Cons.IH[OF this] show ?thesis
      by (simp add: dom_add_score)
  next
    case False
    with Cons.prems show ?thesis by (simp add: get_document_out_of_bounds)
  qed
qed

lemma candidates_Nil: "candidates se [] = {}"
  by (simp add: candidates_def)

lemma candidates_Cons:
  "candidates se (t # ts) = set (lookup_postings (index se) t) \<union> candidates se ts"
  by (auto simp: candidates_def)


lemma tfidf_tokens_returns:
  "(\<exists>scores'. tfidf_tokens se scores ts = Inr scores') \<longleftrightarrow> (\<forall>d \<in> candidates se ts. in_bounds se d)"
proof (induction ts arbitrary: scores)
  case Nil
  show ?case by (simp add: candidates_Nil)
next
  case (Cons t ts)
  show ?case
  proof (cases "index se t")
    case None
    then show ?thesis using Cons.IH[of scores]
      by (simp add: candidates_Cons lookup_postings_def)
  next
    case (Some ps)
    show ?thesis
    proof (cases "\<forall>d \<in> set ps. in_bounds se d")
      case True
      then obtain s1 where s1: "tfidf_docs se t (tfidf_idf se ps) scores ps = Inr s1"
        using tfidf_docs_returns[of se t "tfidf_idf se ps" scores ps] by blast
      show ?thesis using Some True s1 Cons.IH[of s1]
        by (simp add: candidates_Cons lookup_postings_def tfidf_idf_def ball_Un)
    next
      case False
      then have "\<not> (\<exists>s1. tfidf_docs se t (tfidf_idf se ps) scores ps = Inr s1)"
        using tfidf_docs_returns[of se t "tfidf_idf se ps" scores ps] by blast
      then show ?thesis using Some False
        by (auto simp add: candidates_Cons lookup_postings_def tfidf_idf_def split: sum.splits)
    qed
  qed
qed

lemma tfidf_tokens_score:
  "tfidf_tokens se scores ts = Inr scores' \<Longrightarrow>
     score_at scores' d = score_at scores d + sum_list (map (tfidf_contribution se d) ts)"
proof (induction ts arbitrary: scores)
  case Nil
  then show ?case by simp
next
  case (Cons t ts)
  show ?case
  proof (cases "index se t")
    case None
    with Cons.prems have "tfidf_tokens se scores ts = Inr scores'" by simp
    from Cons.IH[OF this] show ?thesis using None by (simp add: tfidf_contribution_def)
  next
    case (Some ps)
    with Cons.prems obtain s1 where
      s1: "tfidf_docs se t (tfidf_idf se ps) scores ps = Inr s1" and
      rest: "tfidf_tokens se s1 ts = Inr scores'"
      by (auto simp: tfidf_idf_def split: sum.splits)
    show ?thesis
      using Cons.IH[OF rest] tfidf_docs_score[OF s1, of d] Some
      by (simp add: tfidf_contribution_def)
  qed
qed

lemma tfidf_tokens_dom:
  "tfidf_tokens se scores ts = Inr scores' \<Longrightarrow> dom scores' = dom scores \<union> candidates se ts"
proof (induction ts arbitrary: scores)
  case Nil
  then show ?case by (simp add: candidates_Nil)
next
  case (Cons t ts)
  show ?case
  proof (cases "index se t")
    case None
    with Cons.prems have "tfidf_tokens se scores ts = Inr scores'" by simp
    from Cons.IH[OF this] show ?thesis using None
      by (simp add: candidates_Cons lookup_postings_def)
  next
    case (Some ps)
    with Cons.prems obtain s1 where
      s1: "tfidf_docs se t (tfidf_idf se ps) scores ps = Inr s1" and
      rest: "tfidf_tokens se s1 ts = Inr scores'"
      by (auto simp: tfidf_idf_def split: sum.splits)
    show ?thesis
      using Cons.IH[OF rest] tfidf_docs_dom[OF s1] Some
      by (auto simp add: candidates_Cons lookup_postings_def)
  qed
qed

lemma tfidf_tokens_absent:
  "\<forall>t \<in> set tokens. index se t = None \<Longrightarrow> tfidf_tokens se scores tokens = Inr scores"
  by (induction tokens) auto

lemma CalculateTFIDFScore_dom:
  "CalculateTFIDFScore se tokens = Inr scores \<Longrightarrow> dom scores = candidates se tokens"
  using tfidf_tokens_dom[of se Map.empty tokens scores] by (simp add: CalculateTFIDFScore_def)

lemma CalculateTFIDFScore_score:
  "CalculateTFIDFScore se tokens = Inr scores
     \<Longrightarrow> score_at scores d = sum_list (map (tfidf_contribution se d) tokens)"
  using tfidf_tokens_score[of se Map.empty tokens scores d]
  by (simp add: CalculateTFIDFScore_def score_at_def)

lemma CalculateTFIDFScore_returns:
  "(\<exists>scores. CalculateTFIDFScore se tokens = Inr scores)
     \<longleftrightarrow> (\<forall>d \<in> candidates se tokens. in_bounds se d)"
  using tfidf_tokens_returns[of se Map.empty tokens] by (simp add: CalculateTFIDFScore_def)

lemma dense_ids_candidates:
  assumes "dense_ids (documents se)" and "index se = BuildInvertedIndex (documents se)"
    and "d \<in> candidates se tokens"
  shows "in_bounds se d"
proof -
  from assms(3) obtain t where "d \<in> set (lookup_postings (index se) t)"
    by (auto simp: candidates_def)
  then have "d \<in> set (postings_of (documents se) t)"
    by (simp add: assms(2) BuildInvertedIndex_lookup)
  from dense_ids_postings[OF assms(1) this] show ?thesis by (simp add: in_bounds_def)
qed

subsection \<open>What the BM25 scorer computes\<close>

lemma bm25_docs_returns:
  "(\<exists>scores'. bm25_docs se t idf scores ds = Inr scores') \<longleftrightarrow> (\<forall>d \<in> set ds. in_bounds se d)"
proof (induction ds arbitrary: scores)
  case Nil
  show ?case by simp
next
  case (Cons d ds)
  show ?case
  proof (cases "in_bounds se d")
    case True
    then show ?thesis using Cons.IH by (simp add: get_document_in_bounds)
  next
    case False
    then show ?thesis by (simp add: get_document_out_of_bounds)
  qed
qed



lemma bm25_tokens_returns:
  "(\<exists>scores'. bm25_tokens se scores ts = Inr scores') \<longleftrightarrow> (\<forall>d \<in> candidates se ts. in_bounds se d)"
proof (induction ts arbitrary: scores)
  case Nil
  show ?case by (simp add: candidates_Nil)
next
  case (Cons t ts)
  show ?case
  proof (cases "index se t")
    case None
    then show ?thesis using Cons.IH[of scores]
      by (simp add: candidates_Cons lookup_postings_def)
  next
    case (Some ps)
    show ?thesis
    proof (cases "\<forall>d \<in> set ps. in_bounds se d")
      case True
      then obtain s1 where s1: "bm25_docs se t (bm25_idf se ps) scores ps = Inr s1"
        using bm25_docs_returns[of se t "bm25_idf se ps" scores ps] by blast
      show ?thesis using Some True s1 Cons.IH[of s1]
        by (simp add: candidates_Cons lookup_postings_def bm25_idf_def ball_Un)
    next
      case False
      then have "\<not> (\<exists>s1. bm25_docs se t (bm25_idf se ps) scores ps = Inr s1)"
        using bm25_docs_returns[of se t "bm25_idf se ps" scores ps] by blast
      then show ?thesis using Some False
        by (auto simp add: candidates_Cons lookup_postings_def bm25_idf_def split: sum.splits)
    qed
  qed
qed



lemma bm25_tokens_absent:
  "\<forall>t \<in> set tokens. index se t = None \<Longrightarrow> bm25_tokens se scores tokens = Inr scores"
  by (induction tokens) auto


subsection \<open>What \<^verbatim>\<open>Search\<close> computes\<close>

lemma collect_results_returns:
  "(\<exists>results'. collect_results se results visit = Inr results')
     \<longleftrightarrow> (\<forall>d \<in> fst ` set visit. in_bounds se d)"
proof (induction visit arbitrary: results)
  case Nil
  show ?case by simp
next
  case (Cons entry visit)
  obtain d sc where entry: "entry = (d, sc)" by (cases entry)
  show ?case
  proof (cases "in_bounds se d")
    case True
    then show ?thesis using Cons.IH entry by (simp add: get_document_in_bounds)
  next
    case False
    then show ?thesis using entry by (simp add: get_document_out_of_bounds)
  qed
qed

lemma collect_results_value:
  "collect_results se results visit = Inr results'
     \<Longrightarrow> results' = results @ map (result_of se) visit"
proof (induction visit arbitrary: results)
  case Nil
  then show ?case by simp
next
  case (Cons entry visit)
  obtain d sc where entry: "entry = (d, sc)" by (cases entry)
  show ?case
  proof (cases "in_bounds se d")
    case True
    with Cons.prems entry have
      "collect_results se (results @ [result_of se entry]) visit = Inr results'"
      by (simp add: get_document_in_bounds result_of_def)
    from Cons.IH[OF this] show ?thesis by simp
  next
    case False
    with Cons.prems entry show ?thesis by (simp add: get_document_out_of_bounds)
  qed
qed

lemma length_insert_by: "length (insert_by lessf x xs) = Suc (length xs)"
  by (induction xs) auto

lemma set_insert_by: "set (insert_by lessf x xs) = insert x (set xs)"
  by (induction xs) auto

lemma length_sort_Slice: "length (sort_Slice lessf xs) = length xs"
  by (induction xs) (auto simp: sort_Slice_def length_insert_by)

lemma set_sort_Slice: "set (sort_Slice lessf xs) = set xs"
  by (induction xs) (auto simp: sort_Slice_def set_insert_by)

lemma sorted_insert_by_Score:
  "sorted_wrt (\<lambda>a b. Score a \<ge> Score b) xs
     \<Longrightarrow> sorted_wrt (\<lambda>a b. Score a \<ge> Score b) (insert_by (\<lambda>a b. Score a > Score b) x xs)"
  by (induction xs) (auto simp: set_insert_by)

lemma sorted_sort_Slice_Score:
  "sorted_wrt (\<lambda>a b. Score a \<ge> Score b) (sort_Slice (\<lambda>a b. Score a > Score b) xs)"
  by (induction xs) (auto simp: sort_Slice_def sorted_insert_by_Score)

lemma range_order_dom: "range_order scores visit \<Longrightarrow> fst ` set visit = dom scores"
  by (metis range_order_def dom_map_of_conv_image_fst)

lemma range_order_length: "range_order scores visit \<Longrightarrow> length visit = card (dom scores)"
proof -
  assume r: "range_order scores visit"
  then have "distinct (map fst visit)" by (simp add: range_order_def)
  then have "card (fst ` set visit) = length visit"
    using distinct_card[of "map fst visit"] by simp
  then show ?thesis using range_order_dom[OF r] by simp
qed

lemma range_order_empty: "range_order Map.empty visit \<longleftrightarrow> visit = []"
  by (cases visit) (auto simp: range_order_def)

text \<open>What \<^verbatim>\<open>Search\<close> returns when the scorer returned \<open>scores\<close> and the loop saw \<open>visit\<close>.\<close>

lemma Search_value:
  assumes "CalculateTFIDFScore se (Fields (ToLower query)) = Inr scores"
    and "Search se visit query = Inr results"
  shows "results = take 10 (sort_Slice (\<lambda>a b. Score a > Score b) (map (result_of se) visit))"
proof -
  from assms obtain collected where c: "collect_results se [] visit = Inr collected"
    by (auto simp: Search_def Let_def split: sum.splits)
  have "collected = map (result_of se) visit"
    using collect_results_value[OF c] by simp
  with assms c show ?thesis
    by (auto simp: Search_def Let_def split: if_splits)
qed

lemma isSpace_lower_byte: "isSpace (lower_byte c) = isSpace c"
  by (auto simp: isSpace_def lower_byte_def Let_def)

lemma fields_from_spaces: "\<forall>c \<in> set s. isSpace c \<Longrightarrow> fields_from [] s = []"
  by (induction s) auto

lemma Fields_whitespace: "\<forall>c \<in> set query. isSpace c \<Longrightarrow> Fields (ToLower query) = []"
  by (simp add: Fields_def ToLower_def fields_from_spaces isSpace_lower_byte)

lemma Search_no_scores:
  "CalculateTFIDFScore se (Fields (ToLower query)) = Inr Map.empty
     \<Longrightarrow> Search se [] query = Inr []"
  by (simp add: Search_def sort_Slice_def)

text \<open>Every finite score map has a listing of its entries.\<close>

lemma map_of_listing:
  assumes "set ks = dom scores"
  shows "map_of (map (\<lambda>k. (k, the (scores k))) ks) = scores"
proof (rule ext)
  fix k
  show "map_of (map (\<lambda>k. (k, the (scores k))) ks) k = scores k"
  proof (cases "k \<in> set ks")
    case True
    have "k \<in> dom scores" by (subst assms[symmetric]) (rule True)
    then obtain v where "scores k = Some v" by (auto simp only: dom_def mem_Collect_eq not_None_eq)
    then show ?thesis using True by (simp add: map_of_map_restrict)
  next
    case False
    have "k \<notin> dom scores" by (subst assms[symmetric]) (rule False)
    then have "scores k = None" by (simp only: domIff not_not)
    then show ?thesis using False by (simp add: map_of_map_restrict)
  qed
qed

lemma range_order_exists:
  assumes "finite (dom scores)"
  shows "\<exists>visit. range_order scores visit"
proof -
  obtain ks where ks: "set ks = dom scores" "distinct ks"
    using finite_distinct_list[OF assms] by blast
  have d: "distinct (map fst (map (\<lambda>k. (k, the (scores k))) ks))"
    using ks(2) by (simp add: comp_def)
  have "range_order scores (map (\<lambda>k. (k, the (scores k))) ks)"
    unfolding range_order_def
  proof (intro conjI)
    show "distinct (map fst (map (\<lambda>k. (k, the (scores k))) ks))" by (rule d)
    show "map_of (map (\<lambda>k. (k, the (scores k))) ks) = scores"
      by (rule map_of_listing[OF ks(1)])
  qed
  then show ?thesis by (rule exI)
qed

lemma Search_returns:
  assumes "\<forall>d \<in> candidates se (Fields (ToLower query)). in_bounds se d"
    and "CalculateTFIDFScore se (Fields (ToLower query)) = Inr scores"
    and "range_order scores visit"
  shows "\<exists>results. Search se visit query = Inr results"
proof -
  have "fst ` set visit = candidates se (Fields (ToLower query))"
    using range_order_dom[OF assms(3)] CalculateTFIDFScore_dom[OF assms(2)] by (rule trans)
  then have "\<forall>d \<in> fst ` set visit. in_bounds se d"
    using assms(1) by (simp only:)
  then obtain collected where "collect_results se [] visit = Inr collected"
    using collect_results_returns[of se "[]" visit] by blast
  with assms(2) show ?thesis by (simp add: Search_def Let_def)
qed

subsection \<open>The engine of \<^verbatim>\<open>main\<close>\<close>

lemma main_engine_simps:
  "index (main_engine docs) = BuildInvertedIndex docs"
  "documents (main_engine docs) = docs"
  "k1 (main_engine docs) = 6 / 5"
  "k2 (main_engine docs) = 3 / 4"
  by (simp_all add: main_engine_def Let_def)

lemma main_engine_avgDocLength:
  "avgDocLength (main_engine docs) = (\<Sum>doc\<leftarrow>docs. real (length (Content doc))) / real (length docs)"
proof -
  have "foldl (\<lambda>docLength doc. docLength + real (length (Content doc))) a docs
          = a + (\<Sum>doc\<leftarrow>docs. real (length (Content doc)))" for a
    by (induction docs arbitrary: a) auto
  from this[of 0] show ?thesis by (simp add: main_engine_def Let_def)
qed

subsection \<open>What \<^verbatim>\<open>strings.Count\<close> counts\<close>














lemma lower_byte_idem: "lower_byte (lower_byte c) = lower_byte c"
  by (auto simp: lower_byte_def Let_def)

lemma fields_from_tokens:
  "t \<in> set (fields_from cur s) \<Longrightarrow> t \<noteq> [] \<and> set t \<subseteq> set cur \<union> set s"
proof (induction s arbitrary: cur)
  case Nil
  then show ?case by (auto split: if_splits)
next
  case (Cons c cs)
  show ?case
  proof (cases "isSpace c")
    case True
    with Cons.prems have "t = cur \<and> cur \<noteq> [] \<or> t \<in> set (fields_from [] cs)"
      by (auto split: if_splits)
    then show ?thesis using Cons.IH[of "[]"] by auto
  next
    case False
    with Cons.prems have "t \<in> set (fields_from (cur @ [c]) cs)" by simp
    from Cons.IH[OF this] show ?thesis by auto
  qed
qed

lemma tokens_lowercase:
  assumes "t \<in> set (Fields (ToLower content))"
  shows "t \<noteq> [] \<and> ToLower t = t"
proof -
  from assms have ne: "t \<noteq> []" and sub: "set t \<subseteq> set (ToLower content)"
    using fields_from_tokens[of t "[]" "ToLower content"] by (auto simp: Fields_def)
  have "lower_byte c = c" if "c \<in> set t" for c
  proof -
    from that sub obtain c' where "c = lower_byte c'" by (auto simp: ToLower_def)
    then show ?thesis by (simp add: lower_byte_idem)
  qed
  then have "ToLower t = t" by (simp add: ToLower_def map_idI)
  with ne show ?thesis by simp
qed







subsection \<open>The corpora, evaluated\<close>

lemma tokens_scenario0:
  "Fields (ToLower ''the quick brown fox'') = [''the'', ''quick'', ''brown'', ''fox'']"
  by code_simp

lemma tokens_scenario1: "Fields (ToLower ''the lazy dog'') = [''the'', ''lazy'', ''dog'']"
  by code_simp

lemma tokens_blah:
  "Fields (ToLower ''Lorem ipsum blah blah fox'') = [''lorem'', ''ipsum'', ''blah'', ''blah'', ''fox'']"
  by code_simp

lemma scenario_index_the: "BuildInvertedIndex scenario_corpus ''the'' = Some [0, 1]"
  by (simp add: BuildInvertedIndex_def scenario_corpus_def index_document_def
      tokens_scenario0 tokens_scenario1 add_posting_apply lookup_postings_def)

lemma scenario_index_fox: "BuildInvertedIndex scenario_corpus ''fox'' = Some [0]"
  by (simp add: BuildInvertedIndex_def scenario_corpus_def index_document_def
      tokens_scenario0 tokens_scenario1 add_posting_apply lookup_postings_def)

lemma scenario_index_cat: "BuildInvertedIndex scenario_corpus ''cat'' = None"
  by (simp add: BuildInvertedIndex_def scenario_corpus_def index_document_def
      tokens_scenario0 tokens_scenario1 add_posting_apply lookup_postings_def)

lemma scenario_counts:
  "Count (ToLower ''the quick brown fox'') ''the'' = 1"
  "Count (ToLower ''the lazy dog'') ''the'' = 1"
  "Count (ToLower ''the quick brown fox'') ''fox'' = 1"
  by code_simp+

lemma tokens_the_fox: "Fields (ToLower ''the fox'') = [''the'', ''fox'']"
  by code_simp

lemma scenario_scores_the_fox:
  "CalculateTFIDFScore (main_engine scenario_corpus) [''the'', ''fox''] = Inr [0 \<mapsto> ln 2, 1 \<mapsto> 0]"
proof -
  have "[(0::int) \<mapsto> 0, 1 \<mapsto> 0, 0 \<mapsto> ln 2] = [0 \<mapsto> ln 2, 1 \<mapsto> (0::real)]"
    by (rule ext) simp
  then show ?thesis
  by (simp add: CalculateTFIDFScore_def main_engine_simps scenario_index_the scenario_index_fox
      get_document_def add_score_def score_at_def scenario_counts)
    (simp add: scenario_corpus_def scenario_counts)
qed

lemma scenario_range_the_fox: "range_order [0 \<mapsto> ln 2, 1 \<mapsto> 0] [(1, 0), (0, ln 2)]"
  by (auto simp: range_order_def)

lemma scenario_search_the_fox:
  "Search (main_engine scenario_corpus) [(1, 0), (0, ln 2)] ''the fox''
     = Inr [\<lparr>ID = 0, Content = ''the quick brown fox'', Score = ln 2\<rparr>,
            \<lparr>ID = 1, Content = ''the lazy dog'', Score = 0\<rparr>]"
  by (simp add: Search_def tokens_the_fox scenario_scores_the_fox get_document_def
      main_engine_simps sort_Slice_def)
    (simp add: scenario_corpus_def)

lemma tokens_cat: "Fields (ToLower ''cat'') = [''cat'']"
  by code_simp

lemma spaces_query: "\<forall>c \<in> set ''  ''. isSpace c"
  by (simp add: isSpace_def)

lemma scenario_dense:
  "\<forall>i < length (documents (main_engine scenario_corpus)).
     ID (documents (main_engine scenario_corpus) ! i) = int i"
  by (auto simp: main_engine_simps scenario_corpus_def less_Suc_eq)

lemma scenario_avgDocLength: "avgDocLength (main_engine scenario_corpus) = 31 / 2"
  by (simp add: main_engine_def scenario_corpus_def)


lemma blah_index: "BuildInvertedIndex blah_corpus ''blah'' = Some [0, 0]"
  by (simp add: BuildInvertedIndex_def blah_corpus_def index_document_def
      tokens_blah add_posting_apply lookup_postings_def)

lemma blah_count: "Count (ToLower ''Lorem ipsum blah blah fox'') ''blah'' = 2"
  by code_simp


lemma tokens_a: "Fields (ToLower ''a'') = [''a'']"
  by code_simp

lemma eleven_dense: "dense_ids (documents (main_engine eleven_corpus))"
  by (simp add: dense_ids_def main_engine_simps eleven_corpus_def)

lemma eleven_postings: "set (postings_of eleven_corpus ''a'') = int ` {0..<11}"
proof -
  have "doc_tokens \<lparr>ID = int i, Content = ''a'', Score = 0\<rparr> = [''a'']" for i
    by (simp add: doc_tokens_def tokens_a)
  then have "postings_of eleven_corpus ''a'' = map int [0..<11]"
    by (simp add: postings_of_def eleven_corpus_def comp_def del: upt.simps)
  then show ?thesis by simp
qed

lemma eleven_candidates: "candidates (main_engine eleven_corpus) [''a''] = int ` {0..<11}"
  by (simp add: candidates_def main_engine_simps BuildInvertedIndex_lookup eleven_postings
      del: upt.simps)

lemma eleven_search:
  "\<exists>scores visit results.
      CalculateTFIDFScore (main_engine eleven_corpus) (Fields (ToLower ''a'')) = Inr scores
    \<and> range_order scores visit
    \<and> Search (main_engine eleven_corpus) visit ''a'' = Inr results
    \<and> card (dom scores) = 11"
proof -
  let ?se = "main_engine eleven_corpus"
  have idx: "index ?se = BuildInvertedIndex (documents ?se)" by (simp add: main_engine_simps)
  have inb: "\<forall>d \<in> candidates ?se (Fields (ToLower ''a'')). in_bounds ?se d"
    using dense_ids_candidates[OF eleven_dense idx] by blast
  then obtain scores where s: "CalculateTFIDFScore ?se (Fields (ToLower ''a'')) = Inr scores"
    using CalculateTFIDFScore_returns[of ?se "Fields (ToLower ''a'')"] by blast
  have "dom scores = candidates ?se (Fields (ToLower ''a''))"
    by (rule CalculateTFIDFScore_dom[OF s])
  also have "\<dots> = int ` {0..<11}"
    by (simp only: tokens_a eleven_candidates)
  finally have dom: "dom scores = int ` {0..<11}" .
  have "finite (int ` {0..<11})" by simp
  then have "finite (dom scores)" by (simp only: dom)
  then obtain visit where v: "range_order scores visit"
    using range_order_exists[of scores] by blast
  obtain results where r: "Search ?se visit ''a'' = Inr results"
    using Search_returns[OF inb s v] by blast
  have "card (int ` {0..<11}) = 11" by (simp add: card_image)
  then have "card (dom scores) = 11" by (simp only: dom)
  with s v r show ?thesis by blast
qed

section \<open>The claims\<close>

text \<open>
  C1, at the one-document corpus \<^verbatim>\<open>{ID: 0, Content: "Lorem ipsum blah blah fox"}\<close>
  and the query token \<^verbatim>\<open>blah\<close>: the scorer returns the score
  \<open>4 * ln (1/2)\<close> for document 0, which is negative, where the score of the claim is
  \<open>2 * ln (1/1) = 0\<close>. The posting list is \<open>[0, 0]\<close>: its length 2 stands for the number of
  documents containing the token, and the document is scored once per entry.
\<close>

theorem tfidf_duplicate_postings_score:
  "CalculateTFIDFScore (main_engine blah_corpus) [''blah''] = Inr [0 \<mapsto> 4 * ln (1 / 2)]
   \<and> tfidf_claimed_score (main_engine blah_corpus) [''blah''] 0 = 0
   \<and> 4 * ln (1 / 2 :: real) < 0"
proof -
  have "CalculateTFIDFScore (main_engine blah_corpus) [''blah''] = Inr [0 \<mapsto> 4 * ln (1 / 2)]"
    by (simp add: CalculateTFIDFScore_def main_engine_simps blah_index
      get_document_def add_score_def score_at_def)
      (simp add: blah_corpus_def blah_count)
  moreover have "tfidf_claimed_score (main_engine blah_corpus) [''blah''] 0 = 0"
    by (simp add: tfidf_claimed_score_def main_engine_simps blah_index)
       (simp add: blah_corpus_def)
  ultimately show ?thesis by simp
qed

text \<open>
  C2, at the same corpus: after the build the posting list of \<^verbatim>\<open>blah\<close> is \<open>[0, 0]\<close>,
  document 0 is in it twice, once per occurrence of the token in the document.
\<close>

theorem BuildInvertedIndex_duplicate_postings:
  "BuildInvertedIndex blah_corpus ''blah'' = Some [0, 0] \<and> \<not> distinct [0 :: int, 0]
   \<and> count_list [0 :: int, 0] 0 = 2"
  by (simp add: blah_index)

text \<open>
  C3, at the scenario corpus: \<^verbatim>\<open>main\<close> sets \<open>avgDocLength\<close> to \<open>31/2\<close>, the mean of the
  byte lengths 19 and 12 of the contents, where the mean of the token counts 4 and 3 is
  \<open>7/2\<close>.
\<close>

theorem avgDocLength_counts_bytes:
  "avgDocLength (main_engine scenario_corpus) = 31 / 2
   \<and> mean_token_count scenario_corpus = 7 / 2"
  by (simp add: scenario_avgDocLength mean_token_count_def)
     (simp add: scenario_corpus_def tokens_scenario0 tokens_scenario1)





text \<open>
  C6. After \<^verbatim>\<open>BuildInvertedIndex\<close>, for every document \<open>D\<close> of the corpus and every
  term \<open>T\<close> among the tokens of \<open>D\<close>'s lower-cased content, the id of \<open>D\<close> is in the
  posting list of \<open>T\<close>; and a term that is a token of no document is not a key of the
  index, so that its posting list reads as empty.
\<close>

theorem BuildInvertedIndex_postings_complete:
  "(\<forall>D \<in> set docs. \<forall>T \<in> set (Fields (ToLower (Content D))).
       \<exists>ps. BuildInvertedIndex docs T = Some ps \<and> ID D \<in> set ps)
   \<and> (\<forall>T. (\<forall>D \<in> set docs. T \<notin> set (Fields (ToLower (Content D))))
          \<longrightarrow> BuildInvertedIndex docs T = None
              \<and> lookup_postings (BuildInvertedIndex docs) T = [])"
proof (intro conjI ballI allI impI)
  fix D T
  assume D: "D \<in> set docs" and T: "T \<in> set (Fields (ToLower (Content D)))"
  then have "BuildInvertedIndex docs T \<noteq> None"
    by (auto simp: BuildInvertedIndex_None doc_tokens_def)
  then obtain ps where ps: "BuildInvertedIndex docs T = Some ps" by blast
  then have "ps = postings_of docs T" by (rule BuildInvertedIndex_Some)
  with D T have "ID D \<in> set ps"
    by (auto simp: set_postings_of doc_tokens_def)
  with ps show "\<exists>ps. BuildInvertedIndex docs T = Some ps \<and> ID D \<in> set ps" by blast
next
  fix T
  assume "\<forall>D \<in> set docs. T \<notin> set (Fields (ToLower (Content D)))"
  then show "BuildInvertedIndex docs T = None"
    by (simp add: BuildInvertedIndex_None doc_tokens_def)
  then show "lookup_postings (BuildInvertedIndex docs) T = []"
    by (simp add: lookup_postings_def)
qed

theorem BuildInvertedIndex_postings_complete_witness:
  "(\<exists>ps. BuildInvertedIndex scenario_corpus ''fox'' = Some ps \<and> 0 \<in> set ps)
   \<and> BuildInvertedIndex scenario_corpus ''cat'' = None
   \<and> lookup_postings (BuildInvertedIndex scenario_corpus) ''cat'' = []"
  using BuildInvertedIndex_postings_complete[of scenario_corpus]
  by (simp add: scenario_corpus_def tokens_scenario0 tokens_scenario1)

text \<open>
  C7. Whatever the engine, the query and the order in which the loop over the score map
  ran, a sequence returned by \<^verbatim>\<open>Search\<close> is sorted by descending score: the score
  of an entry is at least the score of every later entry, in particular of the next one.
\<close>

theorem Search_sorted_descending:
  assumes "Search se visit query = Inr results"
  shows "sorted_wrt (\<lambda>a b. Score a \<ge> Score b) results
         \<and> (\<forall>i. Suc i < length results \<longrightarrow> Score (results ! i) \<ge> Score (results ! Suc i))"
proof -
  from assms obtain scores where s: "CalculateTFIDFScore se (Fields (ToLower query)) = Inr scores"
    by (auto simp: Search_def Let_def split: sum.splits)
  have r: "results = take 10 (sort_Slice (\<lambda>a b. Score a > Score b) (map (result_of se) visit))"
    by (rule Search_value[OF s assms])
  have sorted: "sorted_wrt (\<lambda>a b. Score a \<ge> Score b) results"
    unfolding r by (intro sorted_wrt_take sorted_sort_Slice_Score)
  moreover have "\<forall>i. Suc i < length results \<longrightarrow> Score (results ! i) \<ge> Score (results ! Suc i)"
    using sorted by (auto simp: sorted_wrt_iff_nth_less)
  ultimately show ?thesis by blast
qed

theorem Search_sorted_descending_witness:
  "Search (main_engine scenario_corpus) [(1, 0), (0, ln 2)] ''the fox''
     = Inr [\<lparr>ID = 0, Content = ''the quick brown fox'', Score = ln 2\<rparr>,
            \<lparr>ID = 1, Content = ''the lazy dog'', Score = 0\<rparr>]
   \<and> Score \<lparr>ID = 0, Content = ''the quick brown fox'', Score = ln 2\<rparr>
       \<ge> Score \<lparr>ID = 1, Content = ''the lazy dog'', Score = 0\<rparr>"
  using Search_sorted_descending[OF scenario_search_the_fox] scenario_search_the_fox by simp

text \<open>
  C8. A sequence returned by \<^verbatim>\<open>Search\<close> has at most 10 entries, and it has fewer
  than 10 exactly when fewer than 10 documents received a score (the keys of the score
  map): its length is the smaller of 10 and the number of scored documents.
\<close>

theorem Search_length_limit:
  assumes "CalculateTFIDFScore se (Fields (ToLower query)) = Inr scores"
    and "range_order scores visit"
    and "Search se visit query = Inr results"
  shows "length results \<le> 10
         \<and> (length results < 10 \<longleftrightarrow> card (dom scores) < 10)
         \<and> length results = min 10 (card (dom scores))"
proof -
  have r: "results = take 10 (sort_Slice (\<lambda>a b. Score a > Score b) (map (result_of se) visit))"
    by (rule Search_value[OF assms(1) assms(3)])
  have "length results = min 10 (card (dom scores))"
    unfolding r using range_order_length[OF assms(2)] by (simp add: length_sort_Slice min.commute)
  then show ?thesis by auto
qed

theorem Search_length_limit_witness:
  "(\<exists>scores visit results.
      CalculateTFIDFScore (main_engine eleven_corpus) (Fields (ToLower ''a'')) = Inr scores
    \<and> range_order scores visit
    \<and> Search (main_engine eleven_corpus) visit ''a'' = Inr results
    \<and> card (dom scores) = 11 \<and> length results = 10)
   \<and> (\<exists>results.
      Search (main_engine scenario_corpus) [(1, 0), (0, ln 2)] ''the fox'' = Inr results
    \<and> card (dom [(0::int) \<mapsto> ln 2, 1 \<mapsto> (0::real)]) = 2 \<and> length results = 2)"
proof -
  obtain scores visit results where e:
      "CalculateTFIDFScore (main_engine eleven_corpus) (Fields (ToLower ''a'')) = Inr scores"
      "range_order scores visit"
      "Search (main_engine eleven_corpus) visit ''a'' = Inr results"
      "card (dom scores) = 11"
    using eleven_search by blast
  have "length results = min 10 (card (dom scores))"
    using Search_length_limit[OF e(1) e(2) e(3)] by (rule conjunct2[THEN conjunct2])
  then have "length results = 10" by (simp only: e(4))
  with e have first: "\<exists>scores visit results.
      CalculateTFIDFScore (main_engine eleven_corpus) (Fields (ToLower ''a'')) = Inr scores
    \<and> range_order scores visit
    \<and> Search (main_engine eleven_corpus) visit ''a'' = Inr results
    \<and> card (dom scores) = 11 \<and> length results = 10"
    by blast
  have "length [\<lparr>ID = 0, Content = ''the quick brown fox'', Score = ln 2\<rparr>,
            \<lparr>ID = 1, Content = ''the lazy dog'', Score = 0\<rparr>]
          = min 10 (card (dom [(0::int) \<mapsto> ln 2, 1 \<mapsto> (0::real)]))"
    using Search_length_limit[of "main_engine scenario_corpus" "''the fox''",
        unfolded tokens_the_fox,
        OF scenario_scores_the_fox scenario_range_the_fox scenario_search_the_fox]
    by simp
  then have second: "\<exists>results.
      Search (main_engine scenario_corpus) [(1, 0), (0, ln 2)] ''the fox'' = Inr results
    \<and> card (dom [(0::int) \<mapsto> ln 2, 1 \<mapsto> (0::real)]) = 2 \<and> length results = 2"
    using scenario_search_the_fox by simp
  from first second show ?thesis by (rule conjI)
qed

text \<open>
  C9. For every engine, both scorers return the empty score map, and no error, for a
  token list none of whose tokens is a key of the index (the empty list among them); and
  \<^verbatim>\<open>Search\<close> returns the empty sequence, and no error, for a query that is empty or
  all white space, or whose tokens are all absent from the index.
\<close>

theorem no_match_no_results:
  "((\<forall>t \<in> set tokens. index se t = None) \<longrightarrow>
       CalculateTFIDFScore se tokens = Inr Map.empty
     \<and> CalculateBM25Score se tokens = Inr Map.empty)
   \<and> ((\<forall>c \<in> set query. isSpace c) \<or> (\<forall>t \<in> set (Fields (ToLower query)). index se t = None) \<longrightarrow>
       CalculateTFIDFScore se (Fields (ToLower query)) = Inr Map.empty
     \<and> (\<forall>visit. range_order Map.empty visit \<longrightarrow> Search se visit query = Inr []))"
proof (intro conjI impI)
  assume a: "\<forall>t \<in> set tokens. index se t = None"
  show "CalculateTFIDFScore se tokens = Inr Map.empty"
    by (simp add: CalculateTFIDFScore_def tfidf_tokens_absent[OF a])
  show "CalculateBM25Score se tokens = Inr Map.empty"
    by (simp add: CalculateBM25Score_def bm25_tokens_absent[OF a])
next
  assume "(\<forall>c \<in> set query. isSpace c) \<or> (\<forall>t \<in> set (Fields (ToLower query)). index se t = None)"
  then have a: "\<forall>t \<in> set (Fields (ToLower query)). index se t = None"
    using Fields_whitespace[of query] by auto
  show s: "CalculateTFIDFScore se (Fields (ToLower query)) = Inr Map.empty"
    by (simp add: CalculateTFIDFScore_def tfidf_tokens_absent[OF a])
  show "\<forall>visit. range_order Map.empty visit \<longrightarrow> Search se visit query = Inr []"
    using Search_no_scores[OF s] by (simp add: range_order_empty)
qed

theorem no_match_no_results_witness:
  "CalculateTFIDFScore (main_engine scenario_corpus) [''cat''] = Inr Map.empty
   \<and> CalculateBM25Score (main_engine scenario_corpus) [''cat''] = Inr Map.empty
   \<and> Search (main_engine scenario_corpus) [] ''cat'' = Inr []
   \<and> Search (main_engine scenario_corpus) [] ''  '' = Inr []
   \<and> Search (main_engine scenario_corpus) [] '''' = Inr []"
  using no_match_no_results[of "[''cat'']" "main_engine scenario_corpus" "''cat''"]
    no_match_no_results[of "[]" "main_engine scenario_corpus" "''  ''"]
    no_match_no_results[of "[]" "main_engine scenario_corpus" "''''"]
  by (simp add: tokens_cat spaces_query main_engine_simps scenario_index_cat range_order_empty)

text \<open>
  C10. In an engine whose slice holds each document at the position equal to its id,
  and whose index was built from that slice, every id in every posting list is an
  in-bounds position of the slice. Hence both scorers return a score map, and
  \<^verbatim>\<open>Search\<close> returns a result sequence, without an out-of-range access.
\<close>

theorem dense_ids_in_bounds:
  assumes "\<forall>i < length (documents se). ID (documents se ! i) = int i"
    and "index se = BuildInvertedIndex (documents se)"
  shows "(\<forall>t ps. index se t = Some ps \<longrightarrow> (\<forall>d \<in> set ps. 0 \<le> d \<and> d < int (length (documents se))))
       \<and> (\<forall>tokens. \<exists>scores. CalculateTFIDFScore se tokens = Inr scores)
       \<and> (\<forall>tokens. \<exists>scores. CalculateBM25Score se tokens = Inr scores)
       \<and> (\<forall>query scores visit.
             CalculateTFIDFScore se (Fields (ToLower query)) = Inr scores \<and> range_order scores visit
             \<longrightarrow> (\<exists>results. Search se visit query = Inr results))"
proof (intro conjI allI impI)
  have dense: "dense_ids (documents se)"
    using assms(1) by (simp add: dense_ids_def)
  {
    fix t ps
    assume "index se t = Some ps"
    then have "ps = postings_of (documents se) t"
      using BuildInvertedIndex_Some[of "documents se" t ps] assms(2) by simp
    then show "\<forall>d \<in> set ps. 0 \<le> d \<and> d < int (length (documents se))"
      using dense_ids_postings[OF dense] by blast
  }
  {
    fix tokens
    show "\<exists>scores. CalculateTFIDFScore se tokens = Inr scores"
      using dense_ids_candidates[OF dense assms(2)] by (simp add: CalculateTFIDFScore_returns)
    show "\<exists>scores. CalculateBM25Score se tokens = Inr scores"
      using dense_ids_candidates[OF dense assms(2)] bm25_tokens_returns[of se Map.empty tokens]
      by (simp add: CalculateBM25Score_def)
  }
  {
    fix query scores visit
    assume a: "CalculateTFIDFScore se (Fields (ToLower query)) = Inr scores \<and> range_order scores visit"
    then have "fst ` set visit = candidates se (Fields (ToLower query))"
      using range_order_dom[of scores visit] CalculateTFIDFScore_dom[of se _ scores] by simp
    then have "\<forall>d \<in> fst ` set visit. in_bounds se d"
      using dense_ids_candidates[OF dense assms(2)] by blast
    then obtain collected where "collect_results se [] visit = Inr collected"
      using collect_results_returns[of se "[]" visit] by blast
    with a show "\<exists>results. Search se visit query = Inr results"
      by (simp add: Search_def Let_def)
  }
qed

theorem dense_ids_in_bounds_witness:
  "(\<exists>ps. index (main_engine scenario_corpus) ''the'' = Some ps \<and> ps = [0, 1])
   \<and> (\<exists>scores. CalculateTFIDFScore (main_engine scenario_corpus) [''the'', ''fox''] = Inr scores)
   \<and> (\<exists>scores. CalculateBM25Score (main_engine scenario_corpus) [''the'', ''fox''] = Inr scores)
   \<and> (\<exists>results. Search (main_engine scenario_corpus) [(1, 0), (0, ln 2)] ''the fox'' = Inr results)"
proof -
  have idx: "index (main_engine scenario_corpus)
               = BuildInvertedIndex (documents (main_engine scenario_corpus))"
    by (simp add: main_engine_simps)
  show ?thesis
    using dense_ids_in_bounds[OF scenario_dense idx] scenario_search_the_fox
    by (simp add: main_engine_simps scenario_index_the)
qed

end
